theory Spec2Isabelle
  imports Main "HOL-Library.Sublist"
begin

section \<open>Python values and the operations the tools apply to them\<close>

text \<open>
  A Python \<open>str\<close> is a \<open>string\<close>: a list of characters, each standing for one code
  point in the range 0..255. What \<open>json.load\<close> can return is a \<open>pyval\<close> (floats are
  left out: for every operation below they behave as \<open>PInt\<close> does). A \<open>PDict\<close> is the
  association list of a Python dict, each key once, in insertion order.
\<close>

datatype pyval =
    PNone
  | PBool bool
  | PInt int
  | PStr string
  | PList "pyval list"
  | PDict "(string \<times> pyval) list"

datatype py_error = AttributeError | TypeError | KeyError | IndexError | OSError

text \<open>Truth value of an object, as \<open>if tasks:\<close> and \<open>if not tasks:\<close> test it.\<close>

fun truthy :: "pyval \<Rightarrow> bool" where
  "truthy PNone = False"
| "truthy (PBool b) = b"
| "truthy (PInt i) = (i \<noteq> 0)"
| "truthy (PStr s) = (s \<noteq> [])"
| "truthy (PList xs) = (xs \<noteq> [])"
| "truthy (PDict kvs) = (kvs \<noteq> [])"

text \<open>\<open>obj.append(x)\<close>: only a list has the method.\<close>

fun py_append :: "pyval \<Rightarrow> pyval \<Rightarrow> py_error + pyval" where
  "py_append (PList xs) x = Inr (PList (xs @ [x]))"
| "py_append _ x = Inl AttributeError"

text \<open>The items \<open>enumerate(obj)\<close> runs over: list elements, the characters of a
  string, the keys of a dict; anything else is not iterable.\<close>

fun py_iter :: "pyval \<Rightarrow> py_error + pyval list" where
  "py_iter (PList xs) = Inr xs"
| "py_iter (PStr s) = Inr (map (\<lambda>c. PStr [c]) s)"
| "py_iter (PDict kvs) = Inr (map (\<lambda>kv. PStr (fst kv)) kvs)"
| "py_iter _ = Inl TypeError"

text \<open>\<open>f"{t}"\<close>: a string is inserted as it is; the rendering of any other object is
  Python's \<open>str()\<close>, taken as the parameter \<open>fmt\<close>.\<close>

fun py_format :: "(pyval \<Rightarrow> string) \<Rightarrow> pyval \<Rightarrow> string" where
  "py_format fmt (PStr s) = s"
| "py_format fmt v = fmt v"

text \<open>Decimal rendering of a natural number, as an f-string prints \<open>i+1\<close>.\<close>

definition digit :: "nat \<Rightarrow> char" where
  "digit d = ''0123456789'' ! d"

fun show_nat :: "nat \<Rightarrow> string" where
  "show_nat n = (if n < 10 then [digit n] else show_nat (n div 10) @ [digit (n mod 10)])"

declare show_nat.simps [simp del]


definition newline :: char where
  "newline = CHR 0x0A"

text \<open>\<open>sep.join(parts)\<close>.\<close>

fun str_join :: "string \<Rightarrow> string list \<Rightarrow> string" where
  "str_join sep [] = []"
| "str_join sep [x] = x"
| "str_join sep (x # y # ys) = x @ sep @ str_join sep (y # ys)"

text \<open>\<open>str.isspace\<close> on one code point below 256: tab, line feed, vertical tab, form
  feed, carriage return, the four separators 28..31, space, NEL (133) and the
  no-break space (160).\<close>

definition is_space :: "char \<Rightarrow> bool" where
  "is_space c = ((of_char c :: nat) \<in> {9, 10, 11, 12, 13, 28, 29, 30, 31, 32, 133, 160})"

definition lstrip :: "string \<Rightarrow> string" where
  "lstrip s = dropWhile is_space s"

definition rstrip :: "string \<Rightarrow> string" where
  "rstrip s = rev (dropWhile is_space (rev s))"

definition strip :: "string \<Rightarrow> string" where
  "strip s = rstrip (lstrip s)"

text \<open>The statement \<open>notes[-1] = notes[-1].rstrip() + "\n" + note.lstrip()\<close>, in
  Python's order of evaluation: subscript, \<open>rstrip\<close> on the item, then the item
  assignment.\<close>

fun update_last :: "pyval \<Rightarrow> string \<Rightarrow> py_error + pyval" where
  "update_last (PList xs) note =
     (if xs = [] then Inl IndexError
      else case last xs of
             PStr l \<Rightarrow> Inr (PList (butlast xs @ [PStr (rstrip l @ [newline] @ lstrip note)]))
           | _ \<Rightarrow> Inl AttributeError)"
| "update_last (PStr s) note = Inl (if s = [] then IndexError else TypeError)"
| "update_last (PDict kvs) note = Inl KeyError"
| "update_last _ note = Inl TypeError"

section \<open>The JSON store files\<close>

text \<open>
  The state of one store file (\<open>todo.json\<close> or \<open>notes.json\<close>), seen through what the
  code does with it. \<open>Absent\<close>: \<open>os.path.exists\<close> is false. \<open>Json v\<close>: the file holds
  JSON text that \<open>json.load\<close> turns into \<open>v\<close>. \<open>Malformed t\<close>: the file holds text
  \<open>t\<close> on which \<open>json.load\<close> raises \<open>JSONDecodeError\<close>. \<open>Undecodable b\<close>: the file
  holds bytes \<open>b\<close> that are not UTF-8, so reading it in text mode raises
  \<open>UnicodeDecodeError\<close> (no \<open>JSONDecodeError\<close>). \<open>read_fails\<close>: opening or reading
  the file raises an \<open>OSError\<close>. \<open>write_fails\<close>: \<open>open(..., "w")\<close> raises, so the
  file keeps what it held.
\<close>

datatype disk = Absent | Json pyval | Malformed string | Undecodable string

record store_file =
  disk :: disk
  read_fails :: bool
  write_fails :: bool

definition save_tasks :: "pyval \<Rightarrow> store_file \<Rightarrow> store_file" where
  "save_tasks tasks s = (if write_fails s then s else s\<lparr>disk := Json tasks\<rparr>)"

definition load_tasks :: "store_file \<Rightarrow> pyval \<times> store_file" where
  "load_tasks s =
     (if disk s = Absent then (PList [], s)
      else if read_fails s then (PList [], s)
      else (case disk s of
              Json tasks \<Rightarrow> (tasks, s)
            | Malformed t \<Rightarrow> (PList [], save_tasks (PList []) s)
            | Undecodable b \<Rightarrow> (PList [], s)
            | Absent \<Rightarrow> (PList [], s)))"

definition add_task :: "string \<Rightarrow> store_file \<Rightarrow> (py_error + string) \<times> store_file" where
  "add_task task s =
     (let (tasks, s1) = load_tasks s in
      case py_append tasks (PStr task) of
        Inl e \<Rightarrow> (Inl e, s1)
      | Inr tasks' \<Rightarrow> (Inr (''Task added: '' @ task), save_tasks tasks' s1))"

definition render_item :: "(pyval \<Rightarrow> string) \<Rightarrow> nat \<times> pyval \<Rightarrow> string" where
  "render_item fmt it = show_nat (fst it + 1) @ ''. '' @ py_format fmt (snd it)"

definition list_tasks :: "(pyval \<Rightarrow> string) \<Rightarrow> store_file \<Rightarrow> (py_error + string) \<times> store_file" where
  "list_tasks fmt s =
     (let (tasks, s1) = load_tasks s in
      if \<not> truthy tasks then (Inr ''No tasks in the list.'', s1)
      else case py_iter tasks of
             Inl e \<Rightarrow> (Inl e, s1)
           | Inr ts \<Rightarrow> (Inr (str_join [newline] (map (render_item fmt) (enumerate 0 ts))), s1))"

definition clear_tasks :: "store_file \<Rightarrow> (py_error + string) \<times> store_file" where
  "clear_tasks s = (Inr ''All tasks cleared.'', save_tasks (PList []) s)"

definition save_notes :: "pyval \<Rightarrow> store_file \<Rightarrow> store_file" where
  "save_notes notes s = (if write_fails s then s else s\<lparr>disk := Json notes\<rparr>)"

definition load_notes :: "store_file \<Rightarrow> pyval \<times> store_file" where
  "load_notes s =
     (if disk s = Absent then (PList [], s)
      else if read_fails s then (PList [], s)
      else (case disk s of
              Json notes \<Rightarrow> (notes, s)
            | Malformed t \<Rightarrow> (PList [], save_notes (PList []) s)
            | Undecodable b \<Rightarrow> (PList [], s)
            | Absent \<Rightarrow> (PList [], s)))"

definition write_note :: "string \<Rightarrow> store_file \<Rightarrow> (py_error + string) \<times> store_file" where
  "write_note note s =
     (let (notes, s1) = load_notes s in
      if truthy notes then
        (case update_last notes note of
           Inl e \<Rightarrow> (Inl e, s1)
         | Inr notes' \<Rightarrow> (Inr ''Note updated.'', save_notes notes' s1))
      else
        (case py_append notes (PStr note) of
           Inl e \<Rightarrow> (Inl e, s1)
         | Inr notes' \<Rightarrow> (Inr ''Note added.'', save_notes notes' s1)))"

text \<open>The runtime calls the task tools one after the other; a call that raises leaves
  the file as the load left it and does not stop the calls that follow.\<close>

datatype task_op = AddTask string | ListTasks | ClearTasks

fun task_call :: "(pyval \<Rightarrow> string) \<Rightarrow> task_op \<Rightarrow> store_file \<Rightarrow> (py_error + string) \<times> store_file" where
  "task_call fmt (AddTask t) s = add_task t s"
| "task_call fmt ListTasks s = list_tasks fmt s"
| "task_call fmt ClearTasks s = clear_tasks s"

fun task_calls :: "(pyval \<Rightarrow> string) \<Rightarrow> task_op list \<Rightarrow> store_file \<Rightarrow> store_file" where
  "task_calls fmt [] s = s"
| "task_calls fmt (c # cs) s = task_calls fmt cs (snd (task_call fmt c s))"

text \<open>A store that works and holds no task: reads and writes succeed and the file is
  absent or holds \<open>[]\<close>.\<close>

definition works :: "store_file \<Rightarrow> bool" where
  "works s = (\<not> read_fails s \<and> \<not> write_fails s)"

definition empty_store :: "store_file \<Rightarrow> bool" where
  "empty_store s = (works s \<and> (disk s = Absent \<or> disk s = Json (PList [])))"

text \<open>The entries a listing of the tasks \<open>ts\<close> is made of: the \<open>i\<close>-th is the
  1-indexed rendering of the \<open>i\<close>-th task.\<close>

definition numbered :: "string list \<Rightarrow> string list" where
  "numbered ts = map (\<lambda>i. show_nat (i + 1) @ ''. '' @ ts ! i) [0..<length ts]"

definition listing :: "string list \<Rightarrow> string" where
  "listing ts = (if ts = [] then ''No tasks in the list.'' else str_join [newline] (numbered ts))"

text \<open>\<open>s.split(c)\<close> for a one-character separator: the lines of a listing.\<close>

fun split_on :: "char \<Rightarrow> string \<Rightarrow> string list" where
  "split_on c [] = [[]]"
| "split_on c (x # xs) =
     (if x = c then [] # split_on c xs
      else (case split_on c xs of y # ys \<Rightarrow> (x # y) # ys | [] \<Rightarrow> [[x]]))"

text \<open>The task list a sequence of calls leaves behind, as the specification describes
  the store: an add appends, a clear empties, a listing changes nothing.\<close>

fun pending :: "task_op list \<Rightarrow> string list \<Rightarrow> string list" where
  "pending [] acc = acc"
| "pending (AddTask t # cs) acc = pending cs (acc @ [t])"
| "pending (ListTasks # cs) acc = pending cs acc"
| "pending (ClearTasks # cs) acc = pending cs []"

definition holds :: "store_file \<Rightarrow> string list \<Rightarrow> bool" where
  "holds s ts =
     (works s \<and> (disk s = Json (PList (map PStr ts)) \<or> (ts = [] \<and> disk s = Absent)))"

section \<open>The operating system, as the file tools see it\<close>

text \<open>
  What the tools ask of the platform is a parameter of the model: \<open>sep\<close> is \<open>os.sep\<close>;
  \<open>userprofile\<close> is \<open>os.environ.get("USERPROFILE") or os.path.expanduser("~")\<close>;
  \<open>getlogin\<close> is the outcome of \<open>os.getlogin()\<close>, which can raise; \<open>path_join\<close>,
  \<open>abspath\<close> and \<open>relpath\<close> are the functions of \<open>os.path\<close>; \<open>walk top\<close> is the list of
  triples \<open>(root, dirs, files)\<close> that \<open>os.walk(top)\<close> yields, in its order;
  \<open>read_bytes p\<close> is what \<open>open(p, 'rb')\<close> gives (the bytes, or the exception);
  \<open>utf8_decodes\<close> tells whether \<open>bytes.decode('utf-8')\<close> succeeds; \<open>read_text p\<close> is
  what \<open>open(p, "r", encoding="utf-8").read()\<close> gives: the text, or the message of
  the exception raised.
\<close>

record os_env =
  sep :: char
  userprofile :: string
  getlogin :: "py_error + string"
  path_join :: "string \<Rightarrow> string \<Rightarrow> string"
  abspath :: "string \<Rightarrow> string"
  relpath :: "string \<Rightarrow> string \<Rightarrow> string"
  walk :: "string \<Rightarrow> (string \<times> string list \<times> string list) list"
  read_bytes :: "string \<Rightarrow> py_error + string"
  utf8_decodes :: "string \<Rightarrow> bool"
  read_text :: "string \<Rightarrow> string + string"


definition backslash :: char where
  "backslash = CHR 0x5C"

subsection \<open>Natural-language path resolver\<close>

text \<open>\<open>str.lower\<close> on one code point below 256: the ASCII capitals and the Latin-1
  capitals 192..222 (the multiplication sign 215 apart) move up by 32.\<close>

definition lower_char :: "char \<Rightarrow> char" where
  "lower_char c =
     (let n = (of_char c :: nat)
      in if (65 \<le> n \<and> n \<le> 90) \<or> (192 \<le> n \<and> n \<le> 222 \<and> n \<noteq> 215) then char_of (n + 32) else c)"

definition lower :: "string \<Rightarrow> string" where
  "lower s = map lower_char s"

text \<open>The dict \<open>mappings\<close>, in insertion order.\<close>

definition mappings :: "os_env \<Rightarrow> (string \<times> string) list" where
  "mappings E =
     [(''my documents'', path_join E (userprofile E) ''Documents''),
      (''documents folder'', path_join E (userprofile E) ''Documents''),
      (''downloads folder'', path_join E (userprofile E) ''Downloads''),
      (''my downloads'', path_join E (userprofile E) ''Downloads''),
      (''desktop'', path_join E (userprofile E) ''Desktop''),
      (''pictures folder'', path_join E (userprofile E) ''Pictures''),
      (''music folder'', path_join E (userprofile E) ''Music''),
      (''videos folder'', path_join E (userprofile E) ''Videos''),
      (''c drive'', ''C:'' @ [backslash]),
      (''d drive'', ''D:'' @ [backslash]),
      (''root'', abspath E [sep E]),
      (''home'', userprofile E),
      (''user folder'', userprofile E),
      (''documents'', path_join E (userprofile E) ''Documents''),
      (''downloads'', path_join E (userprofile E) ''Downloads''),
      (''pictures'', path_join E (userprofile E) ''Pictures''),
      (''music'', path_join E (userprofile E) ''Music''),
      (''videos'', path_join E (userprofile E) ''Videos'')]"

text \<open>The loop \<open>for key, val in mappings.items(): if key in nl_path: return val\<close>;
  \<open>key in nl_path\<close> is the substring test.\<close>

fun first_match :: "(string \<times> string) list \<Rightarrow> string \<Rightarrow> string option" where
  "first_match [] nl_path = None"
| "first_match ((key, val) # rest) nl_path =
     (if sublist key nl_path then Some val else first_match rest nl_path)"

text \<open>The combined path \<open>os.path.join(drive, "Users", os.getlogin(), "Documents")\<close>.\<close>

definition drive_documents :: "os_env \<Rightarrow> string \<Rightarrow> py_error + string" where
  "drive_documents E drive =
     (case getlogin E of
        Inl e \<Rightarrow> Inl e
      | Inr login \<Rightarrow> Inr (path_join E (path_join E (path_join E drive ''Users'') login) ''Documents''))"

definition infer_path_from_natural_language :: "os_env \<Rightarrow> string \<Rightarrow> py_error + string" where
  "infer_path_from_natural_language E nl =
     (let nl_path = strip (lower nl)
      in case first_match (mappings E) nl_path of
           Some val \<Rightarrow> Inr val
         | None \<Rightarrow>
             if sublist ''c drive'' nl_path \<and> sublist ''documents'' nl_path
               then drive_documents E (''C:'' @ [backslash])
             else if sublist ''d drive'' nl_path \<and> sublist ''documents'' nl_path
               then drive_documents E (''D:'' @ [backslash])
             else Inr nl_path)"

subsection \<open>File search and guarded read\<close>


text \<open>The body of the loop over \<open>os.walk(search_dir)\<close>: a directory deeper than
  \<open>max_depth\<close> is skipped, the first remaining one that lists the name is returned.\<close>

fun find_loop ::
  "os_env \<Rightarrow> string \<Rightarrow> string \<Rightarrow> int \<Rightarrow> (string \<times> string list \<times> string list) list
     \<Rightarrow> (string \<times> string) option" where
  "find_loop E filename search_dir max_depth [] = None"
| "find_loop E filename search_dir max_depth ((root, dirs, files) # rest) =
     (let rel_path = relpath E root search_dir;
          depth = int (count_list rel_path (sep E))
      in if depth > max_depth then find_loop E filename search_dir max_depth rest
         else if filename \<in> set files then Some (path_join E root filename, root)
         else find_loop E filename search_dir max_depth rest)"

definition find_file :: "os_env \<Rightarrow> string \<Rightarrow> string \<Rightarrow> int \<Rightarrow> (string \<times> string) option" where
  "find_file E filename search_dir0 max_depth =
     (let search_dir = abspath E search_dir0
      in find_loop E filename search_dir max_depth (walk E search_dir))"

text \<open>The depth \<open>find_file\<close> gives a walked directory, and what makes an entry of the
  walk a match: its depth is within the bound and it lists the name.\<close>

definition dir_depth :: "os_env \<Rightarrow> string \<Rightarrow> string \<Rightarrow> int" where
  "dir_depth E search_dir root = int (count_list (relpath E root search_dir) (sep E))"

definition matches ::
  "os_env \<Rightarrow> string \<Rightarrow> string \<Rightarrow> int \<Rightarrow> string \<times> string list \<times> string list \<Rightarrow> bool" where
  "matches E filename search_dir max_depth entry =
     (dir_depth E search_dir (fst entry) \<le> max_depth \<and> filename \<in> set (snd (snd entry)))"







text \<open>A small POSIX-like platform on which the definitions can be run: the home
  directory \<open>/home/ann\<close> holds \<open>todo.txt\<close> and the directory \<open>docs\<close>, which holds
  \<open>a.txt\<close> and the directory \<open>old\<close>, which holds \<open>b.txt\<close>.\<close>

definition posix_join :: "string \<Rightarrow> string \<Rightarrow> string" where
  "posix_join a b =
     (if b \<noteq> [] \<and> hd b = CHR ''/'' then b
      else if a = [] \<or> last a = CHR ''/'' then a @ b
      else a @ ''/'' @ b)"

definition demo_env :: os_env where
  "demo_env =
     \<lparr>sep = CHR ''/'',
      userprofile = ''/home/ann'',
      getlogin = Inr ''ann'',
      path_join = posix_join,
      abspath = (\<lambda>p. if p \<noteq> [] \<and> hd p = CHR ''/'' then p else posix_join ''/home/ann'' p),
      relpath = (\<lambda>p start. if p = start then ''.'' else drop (length start + 1) p),
      walk = (\<lambda>top. if top = ''/home/ann''
                then [(''/home/ann'', [''docs''], [''todo.txt'']),
                      (''/home/ann/docs'', [''old''], [''a.txt'']),
                      (''/home/ann/docs/old'', [], [''b.txt''])]
                else []),
      read_bytes = (\<lambda>p. if p = ''/home/ann/docs/a.txt'' then Inr ''hello'' else Inl OSError),
      utf8_decodes = (\<lambda>b. True),
      read_text = (\<lambda>p. if p = ''/home/ann/docs/a.txt'' then Inr ''hello'' else Inl ''No such file'')\<rparr>"





definition cut_text :: string where
  "cut_text = replicate 511 CHR ''a'' @ [CHR 0xE9]"


section \<open>Password generation\<close>

definition ascii_lowercase :: string where
  "ascii_lowercase = ''abcdefghijklmnopqrstuvwxyz''"

definition ascii_uppercase :: string where
  "ascii_uppercase = ''ABCDEFGHIJKLMNOPQRSTUVWXYZ''"

definition ascii_letters :: string where
  "ascii_letters = ascii_lowercase @ ascii_uppercase"

definition digits :: string where
  "digits = ''0123456789''"

text \<open>\<open>string.punctuation\<close>: the ASCII characters 33..47, 58..64, 91..96 and 123..126.\<close>

definition punctuation :: string where
  "punctuation =
     CHR ''!'' # CHR 0x22 # ''#$%&'' @ CHR 0x27 # ''()*+,-./:;<=>?@['' @ CHR 0x5C # '']^_''
       @ CHR 0x60 # ''{|}~''"

definition characters :: string where
  "characters = ascii_letters @ digits @ punctuation"

text \<open>\<open>secrets.choice(seq)\<close> is \<open>seq[randbelow(len(seq))]\<close>; the number drawn is
  \<open>r mod len(seq)\<close> for an arbitrary \<open>r\<close> of the entropy source, so every index below
  the length can come up and no other.\<close>

definition secrets_choice :: "nat \<Rightarrow> string \<Rightarrow> char" where
  "secrets_choice r seq = seq ! (r mod length seq)"

definition rejection :: string where
  "rejection = ''Password must be at least 6 characters long.''"

text \<open>\<open>rnd i\<close> is what the entropy source gives at the \<open>i\<close>-th draw.\<close>

definition generate_password :: "(nat \<Rightarrow> nat) \<Rightarrow> int \<Rightarrow> string" where
  "generate_password rnd len =
     (if len < 6 then rejection
      else map (\<lambda>i. secrets_choice (rnd i) characters) [0..<nat len])"

section \<open>Properties\<close>

subsection \<open>Task store\<close>

lemma load_tasks_holds: "holds s ts \<Longrightarrow> load_tasks s = (PList (map PStr ts), s)"
  by (auto simp: holds_def works_def load_tasks_def)

lemma add_task_holds: "holds s ts \<Longrightarrow> holds (snd (add_task t s)) (ts @ [t])"
  by (simp add: add_task_def load_tasks_holds save_tasks_def) (auto simp: holds_def works_def)

lemma render_strs:
  "map (render_item fmt) (enumerate 0 (map PStr ts)) = numbered ts"
  by (rule nth_equalityI) (simp_all add: render_item_def nth_enumerate_eq numbered_def)

lemma list_tasks_holds: "holds s ts \<Longrightarrow> list_tasks fmt s = (Inr (listing ts), s)"
  by (simp add: list_tasks_def load_tasks_holds listing_def render_strs)

lemma clear_tasks_holds: "\<not> write_fails s \<Longrightarrow> \<not> read_fails s \<Longrightarrow> holds (snd (clear_tasks s)) []"
  by (simp add: clear_tasks_def save_tasks_def holds_def works_def)

lemma task_call_holds: "holds s ts \<Longrightarrow> holds (snd (task_call fmt c s)) (pending [c] ts)"
  by (cases c) (simp_all add: add_task_holds list_tasks_holds clear_tasks_holds, simp add: holds_def works_def clear_tasks_def save_tasks_def)

lemma pending_Cons: "pending (c # cs) acc = pending cs (pending [c] acc)"
  by (cases c) simp_all

lemma task_calls_holds: "holds s ts \<Longrightarrow> holds (task_calls fmt cs s) (pending cs ts)"
proof (induction cs arbitrary: s ts)
  case Nil
  then show ?case by simp
next
  case (Cons c cs)
  from Cons.IH [OF task_call_holds [OF Cons.prems, of fmt c]]
  show ?case by (subst pending_Cons) simp
qed

lemma pending_adds: "pending (map AddTask ts) acc = acc @ ts"
  by (induction ts arbitrary: acc) simp_all

lemma write_fails_load: "write_fails (snd (load_tasks s)) = write_fails s"
  by (simp add: load_tasks_def save_tasks_def split: disk.splits)

lemma write_fails_call: "write_fails (snd (task_call fmt c s)) = write_fails s"
proof -
  obtain v s1 where l: "load_tasks s = (v, s1)" by (cases "load_tasks s")
  with write_fails_load [of s] have w: "write_fails s1 = write_fails s" by simp
  show ?thesis
  proof (cases c)
    case (AddTask t)
    then show ?thesis using l w
      by (simp add: add_task_def save_tasks_def split: sum.splits)
  next
    case ListTasks
    then show ?thesis using l w
      by (simp add: list_tasks_def split: sum.splits)
  next
    case ClearTasks
    then show ?thesis by (simp add: clear_tasks_def save_tasks_def)
  qed
qed

lemma write_fails_calls: "write_fails (task_calls fmt cs s) = write_fails s"
  by (induction cs arbitrary: s) (simp_all add: write_fails_call)

lemma list_after_clear:
  "\<not> write_fails s \<Longrightarrow> fst (list_tasks fmt (snd (clear_tasks s))) = Inr ''No tasks in the list.''"
  by (simp add: clear_tasks_def save_tasks_def list_tasks_def load_tasks_def)

lemma read_fails_load: "read_fails (snd (load_tasks s)) = read_fails s"
  by (simp add: load_tasks_def save_tasks_def split: disk.splits)

lemma read_fails_call: "read_fails (snd (task_call fmt c s)) = read_fails s"
proof -
  obtain v s1 where l: "load_tasks s = (v, s1)" by (cases "load_tasks s")
  with read_fails_load [of s] have w: "read_fails s1 = read_fails s" by simp
  show ?thesis
  proof (cases c)
    case (AddTask t)
    then show ?thesis using l w
      by (simp add: add_task_def save_tasks_def split: sum.splits)
  next
    case ListTasks
    then show ?thesis using l w
      by (simp add: list_tasks_def split: sum.splits)
  next
    case ClearTasks
    then show ?thesis by (simp add: clear_tasks_def save_tasks_def)
  qed
qed

lemma read_fails_calls: "read_fails (task_calls fmt cs s) = read_fails s"
  by (induction cs arbitrary: s) (simp_all add: read_fails_call)

lemma task_calls_append: "task_calls fmt (cs @ ds) s = task_calls fmt ds (task_calls fmt cs s)"
  by (induction cs arbitrary: s) simp_all

lemma split_on_single: "c \<notin> set l \<Longrightarrow> split_on c l = [l]"
  by (induction l) auto

lemma split_on_append: "c \<notin> set l \<Longrightarrow> split_on c (l @ c # rest) = l # split_on c rest"
  by (induction l) auto

lemma split_on_join:
  "ls \<noteq> [] \<Longrightarrow> \<forall>l\<in>set ls. c \<notin> set l \<Longrightarrow> split_on c (str_join [c] ls) = ls"
proof (induction ls)
  case Nil
  then show ?case by simp
next
  case (Cons l ls)
  show ?case
  proof (cases ls)
    case Nil
    with Cons.prems show ?thesis by (simp add: split_on_single)
  next
    case (Cons m ms)
    with Cons.IH Cons.prems have "split_on c (str_join [c] ls) = ls" by simp
    with Cons Cons.prems show ?thesis by (simp add: split_on_append)
  qed
qed

lemma digit_not_newline: "d < 10 \<Longrightarrow> digit d \<noteq> newline"
proof -
  assume "d < 10"
  then have "digit d \<in> set ''0123456789''" unfolding digit_def by (intro nth_mem) simp
  then show ?thesis by (auto simp: newline_def)
qed

lemma newline_show_nat: "newline \<notin> set (show_nat n)"
proof (induction n rule: show_nat.induct)
  case (1 n)
  show ?case
  proof (cases "n < 10")
    case True
    then show ?thesis using digit_not_newline [of n] by (subst show_nat.simps) auto
  next
    case False
    have "n mod 10 < 10" by simp
    from digit_not_newline [OF this] 1 False show ?thesis
      by (subst show_nat.simps) auto
  qed
qed

lemma newline_numbered:
  "\<forall>t\<in>set ts. newline \<notin> set t \<Longrightarrow> \<forall>l\<in>set (numbered ts). newline \<notin> set l"
  by (auto simp: numbered_def newline_show_nat) (simp_all add: newline_def)

text \<open>
  Claim C1. Whatever calls came before, on a file that can be written a listing right
  after \<open>clear_tasks\<close> is the empty-state message. Starting from an empty store (or
  from a clear, after any calls, on a working store), the listing after adding
  \<open>t1..tN\<close> is the empty-state message for \<open>N = 0\<close> and otherwise the newline-join of
  exactly \<open>N\<close> entries in insertion order, the \<open>i\<close>-th being \<open>"i. ti"\<close>; when no task
  holds a newline these entries are exactly the lines of the string returned.
\<close>

theorem task_store_listing:
  "(\<not> write_fails s \<longrightarrow>
      fst (list_tasks fmt (snd (clear_tasks (task_calls fmt cs s)))) = Inr ''No tasks in the list.'')
   \<and> (empty_store s \<longrightarrow>
      fst (list_tasks fmt (task_calls fmt (map AddTask ts) s)) =
        Inr (if ts = [] then ''No tasks in the list.'' else str_join [newline] (numbered ts)))
   \<and> (works s \<longrightarrow>
      fst (list_tasks fmt (task_calls fmt (cs @ ClearTasks # map AddTask ts) s)) =
        Inr (if ts = [] then ''No tasks in the list.'' else str_join [newline] (numbered ts)))
   \<and> length (numbered ts) = length ts
   \<and> (\<forall>i<length ts. numbered ts ! i = show_nat (i + 1) @ ''. '' @ ts ! i)
   \<and> (ts \<noteq> [] \<and> (\<forall>t\<in>set ts. newline \<notin> set t) \<longrightarrow>
      split_on newline (str_join [newline] (numbered ts)) = numbered ts)"
proof (intro conjI impI)
  assume "\<not> write_fails s"
  then have "\<not> write_fails (task_calls fmt cs s)" by (simp add: write_fails_calls)
  then show "fst (list_tasks fmt (snd (clear_tasks (task_calls fmt cs s)))) = Inr ''No tasks in the list.''"
    by (rule list_after_clear)
next
  assume "empty_store s"
  then have "holds s []" by (auto simp: empty_store_def holds_def)
  from task_calls_holds [OF this, of fmt "map AddTask ts"]
  have "holds (task_calls fmt (map AddTask ts) s) ts" by (simp add: pending_adds)
  then show "fst (list_tasks fmt (task_calls fmt (map AddTask ts) s)) =
        Inr (if ts = [] then ''No tasks in the list.'' else str_join [newline] (numbered ts))"
    by (simp add: list_tasks_holds listing_def)
next
  assume "works s"
  then have "\<not> write_fails (task_calls fmt cs s)" "\<not> read_fails (task_calls fmt cs s)"
    by (simp_all add: works_def write_fails_calls read_fails_calls)
  then have "holds (snd (clear_tasks (task_calls fmt cs s))) []" by (rule clear_tasks_holds)
  from task_calls_holds [OF this, of fmt "map AddTask ts"]
  have "holds (task_calls fmt (cs @ ClearTasks # map AddTask ts) s) ts"
    by (simp add: pending_adds task_calls_append)
  then show "fst (list_tasks fmt (task_calls fmt (cs @ ClearTasks # map AddTask ts) s)) =
        Inr (if ts = [] then ''No tasks in the list.'' else str_join [newline] (numbered ts))"
    by (simp add: list_tasks_holds listing_def)
next
  show "length (numbered ts) = length ts" by (simp add: numbered_def)
next
  show "\<forall>i<length ts. numbered ts ! i = show_nat (i + 1) @ ''. '' @ ts ! i"
    by (simp add: numbered_def)
next
  assume a: "ts \<noteq> [] \<and> (\<forall>t\<in>set ts. newline \<notin> set t)"
  then have "numbered ts \<noteq> []" by (simp add: numbered_def)
  moreover from a have "\<forall>l\<in>set (numbered ts). newline \<notin> set l"
    using newline_numbered [of ts] by blast
  ultimately show "split_on newline (str_join [newline] (numbered ts)) = numbered ts"
    by (rule split_on_join)
qed

theorem task_store_listing_witness:
  "empty_store \<lparr>disk = Absent, read_fails = False, write_fails = False\<rparr>
   \<and> fst (list_tasks (\<lambda>v. []) (task_calls (\<lambda>v. []) [AddTask ''buy milk'']
          \<lparr>disk = Absent, read_fails = False, write_fails = False\<rparr>)) = Inr ''1. buy milk''
   \<and> fst (list_tasks (\<lambda>v. []) (snd (clear_tasks (task_calls (\<lambda>v. []) [AddTask ''a'', ListTasks]
          \<lparr>disk = Absent, read_fails = False, write_fails = False\<rparr>)))) = Inr ''No tasks in the list.''
   \<and> split_on newline ''1. buy milk'' = [''1. buy milk'']"
  using task_store_listing [of "\<lparr>disk = Absent, read_fails = False, write_fails = False\<rparr>"
      "\<lambda>v. []" "[AddTask ''a'', ListTasks]" "[''buy milk'']"]
  by (simp add: empty_store_def works_def numbered_def newline_def show_nat.simps digit_def)


subsection \<open>Note store and corrupted files\<close>

lemma update_last_str:
  "update_last (PList (xs @ [PStr l])) note =
     Inr (PList (xs @ [PStr (rstrip l @ [newline] @ lstrip note)]))"
  by simp

lemma lstrip_splits: "\<exists>ws. s = ws @ lstrip s \<and> (\<forall>c\<in>set ws. is_space c)"
proof (intro exI conjI)
  show "s = takeWhile is_space s @ lstrip s" by (simp add: lstrip_def)
  show "\<forall>c\<in>set (takeWhile is_space s). is_space c" by (auto dest: set_takeWhileD)
qed

lemma lstrip_start: "lstrip s = [] \<or> \<not> is_space (hd (lstrip s))"
  unfolding lstrip_def using hd_dropWhile [of is_space s] by blast

lemma rstrip_splits: "\<exists>ws. s = rstrip s @ ws \<and> (\<forall>c\<in>set ws. is_space c)"
proof (intro exI conjI)
  have "rev (takeWhile is_space (rev s) @ dropWhile is_space (rev s)) = rev (rev s)"
    by (simp only: takeWhile_dropWhile_id)
  then show "s = rstrip s @ rev (takeWhile is_space (rev s))"
    by (simp only: rstrip_def rev_append rev_rev_ident)
  show "\<forall>c\<in>set (rev (takeWhile is_space (rev s))). is_space c" by (auto dest: set_takeWhileD)
qed

lemma rstrip_end: "rstrip s = [] \<or> \<not> is_space (last (rstrip s))"
  unfolding rstrip_def using hd_dropWhile [of is_space "rev s"] by (auto simp: last_rev)

text \<open>
  Claim C2. On an empty note store that works, \<open>write_note\<close> stores exactly one entry,
  the input. On a working store whose array ends in a string, it keeps the number of
  entries and replaces the last entry by itself without its trailing whitespace, a
  newline, and the input without its leading whitespace.
\<close>

theorem write_note_effect:
  "(empty_store s \<longrightarrow>
      write_note note s = (Inr ''Note added.'', s\<lparr>disk := Json (PList [PStr note])\<rparr>))
   \<and> (works s \<and> disk s = Json (PList (xs @ [PStr l])) \<longrightarrow>
      write_note note s =
        (Inr ''Note updated.'',
         s\<lparr>disk := Json (PList (xs @ [PStr (rstrip l @ [newline] @ lstrip note)]))\<rparr>)
      \<and> length (xs @ [PStr (rstrip l @ [newline] @ lstrip note)]) = length (xs @ [PStr l]))
   \<and> (\<exists>ws. l = rstrip l @ ws \<and> (\<forall>c\<in>set ws. is_space c))
   \<and> (rstrip l = [] \<or> \<not> is_space (last (rstrip l)))
   \<and> (\<exists>ws. note = ws @ lstrip note \<and> (\<forall>c\<in>set ws. is_space c))
   \<and> (lstrip note = [] \<or> \<not> is_space (hd (lstrip note)))"
proof (intro conjI impI)
  assume "empty_store s"
  then show "write_note note s = (Inr ''Note added.'', s\<lparr>disk := Json (PList [PStr note])\<rparr>)"
    by (auto simp: empty_store_def works_def write_note_def load_notes_def save_notes_def)
next
  assume a: "works s \<and> disk s = Json (PList (xs @ [PStr l]))"
  then have "load_notes s = (PList (xs @ [PStr l]), s)"
    by (simp add: works_def load_notes_def)
  with a show "write_note note s =
        (Inr ''Note updated.'',
         s\<lparr>disk := Json (PList (xs @ [PStr (rstrip l @ [newline] @ lstrip note)]))\<rparr>)"
    by (simp add: write_note_def update_last_str save_notes_def works_def)
next
  show "length (xs @ [PStr (rstrip l @ [newline] @ lstrip note)]) = length (xs @ [PStr l])" by simp
next
  show "\<exists>ws. l = rstrip l @ ws \<and> (\<forall>c\<in>set ws. is_space c)" by (rule rstrip_splits)
next
  show "rstrip l = [] \<or> \<not> is_space (last (rstrip l))" by (rule rstrip_end)
next
  show "\<exists>ws. note = ws @ lstrip note \<and> (\<forall>c\<in>set ws. is_space c)" by (rule lstrip_splits)
next
  show "lstrip note = [] \<or> \<not> is_space (hd (lstrip note))" by (rule lstrip_start)
qed

theorem write_note_effect_witness:
  "empty_store \<lparr>disk = Absent, read_fails = False, write_fails = False\<rparr>
   \<and> write_note ''milk '' \<lparr>disk = Absent, read_fails = False, write_fails = False\<rparr> =
       (Inr ''Note added.'', \<lparr>disk = Json (PList [PStr ''milk '']), read_fails = False, write_fails = False\<rparr>)
   \<and> works \<lparr>disk = Json (PList [PStr ''a'', PStr ''b  '']), read_fails = False, write_fails = False\<rparr>
   \<and> write_note ''  c '' \<lparr>disk = Json (PList [PStr ''a'', PStr ''b  '']), read_fails = False, write_fails = False\<rparr> =
       (Inr ''Note updated.'',
        \<lparr>disk = Json (PList [PStr ''a'', PStr (''b'' @ [newline] @ ''c '')]), read_fails = False, write_fails = False\<rparr>)"
proof -
  have r: "rstrip ''b  '' = ''b''" "lstrip ''  c '' = ''c ''"
    by (simp_all add: rstrip_def lstrip_def is_space_def)
  show ?thesis
    using write_note_effect [of "\<lparr>disk = Absent, read_fails = False, write_fails = False\<rparr>" "''milk ''" "[]" "[]"]
      write_note_effect [of "\<lparr>disk = Json (PList [PStr ''a'', PStr ''b  '']), read_fails = False, write_fails = False\<rparr>"
         "''  c ''" "[PStr ''a'']" "''b  ''"]
    by (simp add: empty_store_def works_def r)
qed

text \<open>
  Claim C3 fails as stated: a store file whose bytes are not UTF-8 is not valid JSON,
  yet reading it raises \<open>UnicodeDecodeError\<close>, which the \<open>JSONDecodeError\<close> handler
  does not catch; the load returns the empty list and the file keeps its content.
\<close>

theorem load_undecodable_counterexample:
  "load_tasks \<lparr>disk = Undecodable [CHR 0xFF], read_fails = False, write_fails = False\<rparr> =
     (PList [], \<lparr>disk = Undecodable [CHR 0xFF], read_fails = False, write_fails = False\<rparr>)
   \<and> disk (snd (load_tasks \<lparr>disk = Undecodable [CHR 0xFF], read_fails = False, write_fails = False\<rparr>))
       \<noteq> Json (PList [])
   \<and> load_notes \<lparr>disk = Undecodable [CHR 0xFF], read_fails = False, write_fails = False\<rparr> =
     (PList [], \<lparr>disk = Undecodable [CHR 0xFF], read_fails = False, write_fails = False\<rparr>)
   \<and> disk (snd (load_notes \<lparr>disk = Undecodable [CHR 0xFF], read_fails = False, write_fails = False\<rparr>))
       \<noteq> Json (PList [])"
  by (simp add: load_tasks_def load_notes_def)

text \<open>
  Claim C3, amended. When the file can be read and written and holds text that the
  JSON parser rejects, the load (of either store) returns the empty list and the file
  then holds \<open>[]\<close>. Whatever the content that is not valid JSON, text or bytes, the
  load returns the empty list.
\<close>

theorem load_malformed_resets:
  "(disk s = Malformed t \<and> \<not> read_fails s \<and> \<not> write_fails s \<longrightarrow>
      load_tasks s = (PList [], s\<lparr>disk := Json (PList [])\<rparr>)
      \<and> load_notes s = (PList [], s\<lparr>disk := Json (PList [])\<rparr>))
   \<and> (disk s = Malformed t \<or> disk s = Undecodable b \<longrightarrow>
      fst (load_tasks s) = PList [] \<and> fst (load_notes s) = PList [])"
  by (auto simp: load_tasks_def load_notes_def save_tasks_def save_notes_def)

theorem load_malformed_resets_witness:
  "load_tasks \<lparr>disk = Malformed ''[1, 2'', read_fails = False, write_fails = False\<rparr> =
     (PList [], \<lparr>disk = Json (PList []), read_fails = False, write_fails = False\<rparr>)
   \<and> load_notes \<lparr>disk = Malformed ''[1, 2'', read_fails = False, write_fails = False\<rparr> =
     (PList [], \<lparr>disk = Json (PList []), read_fails = False, write_fails = False\<rparr>)"
  using load_malformed_resets [of "\<lparr>disk = Malformed ''[1, 2'', read_fails = False, write_fails = False\<rparr>" "''[1, 2''"]
  by simp

text \<open>
  Claim C10. When the file exists and reading it fails for another reason than a JSON
  parse error (an \<open>OSError\<close>, or bytes that are not UTF-8), the load of either store
  returns the empty list and the file is as it was.
\<close>

theorem load_failure_keeps_file:
  "disk s \<noteq> Absent \<Longrightarrow> read_fails s \<or> disk s = Undecodable b \<Longrightarrow>
     load_tasks s = (PList [], s) \<and> load_notes s = (PList [], s)"
  by (auto simp: load_tasks_def load_notes_def)

theorem load_failure_keeps_file_witness:
  "load_tasks \<lparr>disk = Json (PList [PStr ''a'']), read_fails = True, write_fails = False\<rparr> =
     (PList [], \<lparr>disk = Json (PList [PStr ''a'']), read_fails = True, write_fails = False\<rparr>)
   \<and> load_notes \<lparr>disk = Malformed ''{'', read_fails = True, write_fails = False\<rparr> =
     (PList [], \<lparr>disk = Malformed ''{'', read_fails = True, write_fails = False\<rparr>)"
  using load_failure_keeps_file [of "\<lparr>disk = Json (PList [PStr ''a'']), read_fails = True, write_fails = False\<rparr>"]
    load_failure_keeps_file [of "\<lparr>disk = Malformed ''{'', read_fails = True, write_fails = False\<rparr>"]
  by simp

text \<open>
  Claim C6 does not hold of the code: \<open>add_task\<close> has no handler of its own, and
  when \<open>todo.json\<close> holds the JSON object \<open>{}\<close> the \<open>append\<close> raises \<open>AttributeError\<close>,
  which reaches the runtime.
\<close>

theorem add_task_raises:
  "add_task ''buy milk'' \<lparr>disk = Json (PDict []), read_fails = False, write_fails = False\<rparr> =
     (Inl AttributeError, \<lparr>disk = Json (PDict []), read_fails = False, write_fails = False\<rparr>)"
  by (simp add: add_task_def load_tasks_def)


subsection \<open>Natural-language path resolver\<close>

lemma first_match_None:
  "first_match kvs n = None \<longleftrightarrow> (\<forall>kv\<in>set kvs. \<not> sublist (fst kv) n)"
  by (induction kvs n rule: first_match.induct) auto

lemma first_match_first:
  "first_match kvs n = Some v \<Longrightarrow>
     \<exists>i<length kvs. sublist (fst (kvs ! i)) n \<and> v = snd (kvs ! i)
        \<and> (\<forall>j<i. \<not> sublist (fst (kvs ! j)) n)"
proof (induction kvs n rule: first_match.induct)
  case (1 n)
  then show ?case by simp
next
  case (2 key val rest n)
  show ?case
  proof (cases "sublist key n")
    case True
    with 2 have "v = val" by simp
    with True show ?thesis by (intro exI [of _ 0]) simp
  next
    case False
    with 2 obtain i where i: "i < length rest" "sublist (fst (rest ! i)) n" "v = snd (rest ! i)"
      "\<forall>j<i. \<not> sublist (fst (rest ! j)) n" by auto
    have "\<forall>j<Suc i. \<not> sublist (fst (((key, val) # rest) ! j)) n"
    proof (intro allI impI)
      fix j assume "j < Suc i"
      then show "\<not> sublist (fst (((key, val) # rest) ! j)) n"
        using False i(4) by (cases j) auto
    qed
    with i show ?thesis by (intro exI [of _ "Suc i"]) simp
  qed
qed


lemma drive_keys: "(''c drive'', ''C:'' @ [backslash]) \<in> set (mappings E)"
  "(''d drive'', ''D:'' @ [backslash]) \<in> set (mappings E)"
  by (simp_all add: mappings_def)


lemma no_match_no_drive:
  assumes "first_match (mappings E) n = None"
  shows "\<not> sublist ''c drive'' n" and "\<not> sublist ''d drive'' n"
proof -
  from assms have a: "\<forall>kv\<in>set (mappings E). \<not> sublist (fst kv) n" by (simp only: first_match_None)
  from a drive_keys(1) [of E] show "\<not> sublist ''c drive'' n" by (metis fst_conv)
  from a drive_keys(2) [of E] show "\<not> sublist ''d drive'' n" by (metis fst_conv)
qed

lemma infer_path_table_or_input:
  "infer_path_from_natural_language E nl =
     Inr (case first_match (mappings E) (strip (lower nl)) of
            Some val \<Rightarrow> val
          | None \<Rightarrow> strip (lower nl))"
proof (cases "first_match (mappings E) (strip (lower nl))")
  case None
  from no_match_no_drive [OF None] None show ?thesis
    by (simp add: infer_path_from_natural_language_def Let_def)
next
  case (Some v)
  then show ?thesis by (simp add: infer_path_from_natural_language_def Let_def)
qed

lemma normalise_examples:
  "strip (lower ''/tmp/Work'') = ''/tmp/work''"
  "strip (lower ''c drive in the documents folder'') = ''c drive in the documents folder''"
  "strip (lower ''D drive documents'') = ''d drive documents''"
  "strip (lower ''home'') = ''home''"
  by code_simp+

text \<open>
  Claim C7 does not hold of the code: no table key occurs in \<open>/tmp/Work\<close> and neither
  compound case applies, yet the resolver returns \<open>/tmp/work\<close>: the fallback returns
  the lowercased, stripped copy of the input, not the input.
\<close>

theorem fallback_normalises_input:
  "infer_path_from_natural_language E ''/tmp/Work'' = Inr ''/tmp/work''"
  by (simp add: infer_path_table_or_input normalise_examples mappings_def sublist_code(3))

text \<open>
  Claim C8 does not hold of the code: on every platform and for every input the
  resolver returns the value of the first table key found in the normalised input,
  or that normalised input; the two combined cases are never reached, since an input
  holding \<open>c drive\<close> or \<open>d drive\<close> has already matched a table key. So
  \<open>c drive in the documents folder\<close> gives the user-profile Documents directory and
  \<open>D drive documents\<close> gives the root of drive \<open>D\<close>.
\<close>

theorem compound_case_dead:
  "infer_path_from_natural_language E nl =
     Inr (case first_match (mappings E) (strip (lower nl)) of
            Some val \<Rightarrow> val
          | None \<Rightarrow> strip (lower nl))
   \<and> infer_path_from_natural_language E ''c drive in the documents folder'' =
     Inr (path_join E (userprofile E) ''Documents'')
   \<and> infer_path_from_natural_language E ''D drive documents'' = Inr (''D:'' @ [backslash])"
  by (simp add: infer_path_table_or_input normalise_examples mappings_def sublist_code(3))


subsection \<open>File search\<close>

lemma find_loop_None:
  "find_loop E fn sd md W = None \<longleftrightarrow> (\<forall>e\<in>set W. \<not> matches E fn sd md e)"
  by (induction E fn sd md W rule: find_loop.induct) (auto simp: matches_def dir_depth_def Let_def)

lemma find_loop_Some:
  "find_loop E fn sd md W = Some (p, r) \<Longrightarrow>
     \<exists>i<length W. matches E fn sd md (W ! i) \<and> fst (W ! i) = r \<and> p = path_join E r fn
        \<and> (\<forall>j<i. \<not> matches E fn sd md (W ! j))"
proof (induction E fn sd md W rule: find_loop.induct)
  case (1 E fn sd md)
  then show ?case by simp
next
  case (2 E fn sd md root dirs files rest)
  show ?case
  proof (cases "matches E fn sd md (root, dirs, files)")
    case True
    with 2(3) have "p = path_join E root fn" "r = root"
      by (auto simp: matches_def dir_depth_def Let_def)
    with True show ?thesis by (intro exI [of _ 0]) simp
  next
    case False
    with 2(3) have rest: "find_loop E fn sd md rest = Some (p, r)"
      by (auto simp: matches_def dir_depth_def Let_def split: if_splits)
    have "\<exists>i<length rest. matches E fn sd md (rest ! i) \<and> fst (rest ! i) = r \<and> p = path_join E r fn
        \<and> (\<forall>j<i. \<not> matches E fn sd md (rest ! j))"
    proof (cases "int (count_list (relpath E root sd) (sep E)) > md")
      case True
      then show ?thesis using 2(1) [OF refl refl True rest] by simp
    next
      case deep: False
      with False have "fn \<notin> set files" by (simp add: matches_def dir_depth_def)
      then show ?thesis using 2(2) [OF refl refl deep _ rest] by simp
    qed
    then obtain i where i: "i < length rest" "matches E fn sd md (rest ! i)" "fst (rest ! i) = r"
      "p = path_join E r fn" "\<forall>j<i. \<not> matches E fn sd md (rest ! j)" by blast
    have "\<forall>j<Suc i. \<not> matches E fn sd md (((root, dirs, files) # rest) ! j)"
    proof (intro allI impI)
      fix j assume "j < Suc i"
      then show "\<not> matches E fn sd md (((root, dirs, files) # rest) ! j)"
        using False i(5) by (cases j) auto
    qed
    with i show ?thesis by (intro exI [of _ "Suc i"]) simp
  qed
qed

text \<open>
  Claim C9. \<open>find_file\<close> returns the not-found signal exactly when no directory of the
  walk within the depth bound lists the name. When it returns a path and a directory,
  the depth of that directory (the number of separators in its path relative to the
  search root) is at most \<open>max_depth\<close>, the path is the directory joined with the
  name, the directory lists the name, and no earlier directory of the walk is within
  the bound and lists the name.
\<close>

theorem find_file_result:
  "(find_file E fn sd md = None \<longleftrightarrow>
      (\<forall>e\<in>set (walk E (abspath E sd)). \<not> matches E fn (abspath E sd) md e))
   \<and> (find_file E fn sd md = Some (p, r) \<longrightarrow>
        dir_depth E (abspath E sd) r \<le> md
        \<and> p = path_join E r fn
        \<and> (\<exists>i<length (walk E (abspath E sd)).
              fst (walk E (abspath E sd) ! i) = r
              \<and> fn \<in> set (snd (snd (walk E (abspath E sd) ! i)))
              \<and> (\<forall>j<i. \<not> matches E fn (abspath E sd) md (walk E (abspath E sd) ! j))))"
proof (intro conjI impI)
  show "find_file E fn sd md = None \<longleftrightarrow>
      (\<forall>e\<in>set (walk E (abspath E sd)). \<not> matches E fn (abspath E sd) md e)"
    by (simp add: find_file_def Let_def find_loop_None)
next
  assume "find_file E fn sd md = Some (p, r)"
  then have "find_loop E fn (abspath E sd) md (walk E (abspath E sd)) = Some (p, r)"
    by (simp add: find_file_def Let_def)
  from find_loop_Some [OF this] obtain i where i: "i < length (walk E (abspath E sd))"
    "matches E fn (abspath E sd) md (walk E (abspath E sd) ! i)"
    "fst (walk E (abspath E sd) ! i) = r" "p = path_join E r fn"
    "\<forall>j<i. \<not> matches E fn (abspath E sd) md (walk E (abspath E sd) ! j)" by blast
  from i(2,3) show "dir_depth E (abspath E sd) r \<le> md" by (simp add: matches_def)
  from i(4) show "p = path_join E r fn" .
  from i show "\<exists>i<length (walk E (abspath E sd)).
              fst (walk E (abspath E sd) ! i) = r
              \<and> fn \<in> set (snd (snd (walk E (abspath E sd) ! i)))
              \<and> (\<forall>j<i. \<not> matches E fn (abspath E sd) md (walk E (abspath E sd) ! j))"
    by (auto simp: matches_def)
qed

lemma demo_find_a:
  "find_file demo_env ''a.txt'' ''/home/ann'' 5 = Some (''/home/ann/docs/a.txt'', ''/home/ann/docs'')"
  by (simp add: find_file_def demo_env_def posix_join_def)

lemma demo_find_b: "find_file demo_env ''b.txt'' ''/home/ann'' 0 = None"
  by (simp add: find_file_def demo_env_def posix_join_def)

theorem find_file_result_witness:
  "find_file demo_env ''a.txt'' ''/home/ann'' 5 = Some (''/home/ann/docs/a.txt'', ''/home/ann/docs'')
   \<and> dir_depth demo_env (abspath demo_env ''/home/ann'') ''/home/ann/docs'' \<le> 5
   \<and> find_file demo_env ''b.txt'' ''/home/ann'' 0 = None
   \<and> list_all (\<lambda>e. \<not> matches demo_env ''b.txt'' (abspath demo_env ''/home/ann'') 0 e)
        (walk demo_env (abspath demo_env ''/home/ann''))"
  using find_file_result [of demo_env "''a.txt''" "''/home/ann''" 5 "''/home/ann/docs/a.txt''" "''/home/ann/docs''"]
    find_file_result [of demo_env "''b.txt''" "''/home/ann''" 0]
  by (simp add: demo_find_a demo_find_b list_all_iff)


subsection \<open>Guarded read\<close>














lemma cut_length: "length cut_text = 512"
  by (simp add: cut_text_def)






subsection \<open>Password generation\<close>

lemma characters_nonempty: "0 < length characters"
  by (simp add: characters_def ascii_letters_def ascii_lowercase_def)

lemma secrets_choice_in: "secrets_choice r characters \<in> set characters"
  unfolding secrets_choice_def using characters_nonempty by (intro nth_mem) simp

lemma set_characters: "set characters = set ascii_letters \<union> set digits \<union> set punctuation"
  by (simp add: characters_def Un_assoc)

lemma space_not_character: "CHR '' '' \<notin> set characters"
  by (simp add: characters_def ascii_letters_def ascii_lowercase_def ascii_uppercase_def digits_def
      punctuation_def)

lemma space_in_rejection: "CHR '' '' \<in> set rejection"
  by (simp add: rejection_def)

lemma password_chars: "6 \<le> len \<Longrightarrow> set (generate_password rnd len) \<subseteq> set characters"
  by (auto simp: generate_password_def secrets_choice_in)

text \<open>
  Claim C5. Whatever the entropy source draws: a length below 6 gives the rejection
  message; length 20 gives 20 characters, each an ASCII letter, a digit or a
  punctuation character; every length from 6 on gives that many such characters,
  and never the rejection message.
\<close>

theorem generate_password_result:
  "(len < 6 \<longrightarrow> generate_password rnd len = rejection)
   \<and> length (generate_password rnd 20) = 20
   \<and> set (generate_password rnd 20) \<subseteq> set ascii_letters \<union> set digits \<union> set punctuation
   \<and> (6 \<le> len \<longrightarrow>
        length (generate_password rnd len) = nat len
        \<and> set (generate_password rnd len) \<subseteq> set ascii_letters \<union> set digits \<union> set punctuation
        \<and> generate_password rnd len \<noteq> rejection)"
proof (intro conjI impI)
  assume "len < 6"
  then show "generate_password rnd len = rejection" by (simp add: generate_password_def)
next
  show "length (generate_password rnd 20) = 20" by (simp add: generate_password_def)
next
  show "set (generate_password rnd 20) \<subseteq> set ascii_letters \<union> set digits \<union> set punctuation"
    using password_chars [of 20 rnd] by (simp add: set_characters)
next
  assume "6 \<le> len"
  then show "length (generate_password rnd len) = nat len" by (simp add: generate_password_def)
next
  assume "6 \<le> len"
  then show "set (generate_password rnd len) \<subseteq> set ascii_letters \<union> set digits \<union> set punctuation"
    using password_chars [of len rnd] by (simp add: set_characters)
next
  assume "6 \<le> len"
  from password_chars [OF this, of rnd] space_not_character
  have "CHR '' '' \<notin> set (generate_password rnd len)" by blast
  with space_in_rejection show "generate_password rnd len \<noteq> rejection" by metis
qed

theorem generate_password_result_witness:
  "generate_password (\<lambda>i. 7 * i) 5 = rejection
   \<and> generate_password (\<lambda>i. 7 * i) 6 = ''ahovCJ''
   \<and> length (generate_password (\<lambda>i. 7 * i) 6) = 6"
proof -
  have "generate_password (\<lambda>i. 7 * i) 6 = ''ahovCJ''" by code_simp
  with generate_password_result [of 5 "\<lambda>i. 7 * i"] generate_password_result [of 6 "\<lambda>i. 7 * i"]
  show ?thesis by simp
qed


end
